theory Spec2Isabelle
  imports Main
begin

section \<open>The Go library functions rlog calls\<close>

text \<open>
  rlog.go is one Go file. Its filter engine and its config merger lean on a handful of
  functions of the Go standard library (\<open>strings\<close>, \<open>strconv\<close>, \<open>path\<close>,
  \<open>path/filepath\<close>, \<open>unicode/utf8\<close>). They are written out here for a Unix build
  (\<open>filepath.Separator = '/'\<close>, no volume names, backslash is the glob escape) with a
  64-bit \<open>int\<close>. A Go \<open>string\<close> is a sequence of bytes, which is what \<open>string\<close>
  (a \<open>char list\<close>) is here.

  \<open>strings.ToUpper\<close> and \<open>strings.TrimSpace\<close> are modelled on ASCII: a byte of
  value 128 or more is never a letter and never white space. On strings made of ASCII
  bytes this is what Go computes; theorems that depend on it say so.
\<close>

subsection \<open>Bytes\<close>

definition byte :: "char \<Rightarrow> nat" where
  "byte c = of_char c"

definition isASCII :: "string \<Rightarrow> bool" where
  "isASCII s = list_all (\<lambda>c. byte c < 128) s"

definition Separator :: char where
  "Separator = CHR ''/''"

definition backslash :: char where
  "backslash = CHR 0x5C"

subsection \<open>strings\<close>

text \<open>\<open>strings.Split(s, sep)\<close> for a separator of one byte: the pieces between the
  separators, so one more piece than there are separators, and \<open>[""]\<close> for the empty
  string. The result is never empty.\<close>

fun Split :: "string \<Rightarrow> char \<Rightarrow> string list" where
  "Split [] sep = [[]]"
| "Split (c # cs) sep =
     (if c = sep then [] # Split cs sep
      else (case Split cs sep of
              [] \<Rightarrow> [[c]]
            | piece # pieces \<Rightarrow> (c # piece) # pieces))"

text \<open>\<open>strings.SplitN(s, sep, 2)\<close> for a separator of one byte: the string itself
  when it has no separator, else the text before the first separator and all the text
  after it.\<close>

definition SplitN2 :: "string \<Rightarrow> char \<Rightarrow> string list" where
  "SplitN2 s sep =
     (if sep \<in> set s
      then [takeWhile (\<lambda>c. c \<noteq> sep) s, tl (dropWhile (\<lambda>c. c \<noteq> sep) s)]
      else [s])"

text \<open>\<open>strings.ToUpper\<close>, ASCII: \<open>if 'a' <= c && c <= 'z' { c -= 'a' - 'A' }\<close>.\<close>

definition upperByte :: "char \<Rightarrow> char" where
  "upperByte c = (if 97 \<le> byte c \<and> byte c \<le> 122 then char_of (byte c - 32) else c)"

definition ToUpper :: "string \<Rightarrow> string" where
  "ToUpper s = map upperByte s"

text \<open>\<open>strings.TrimSpace\<close>, ASCII: the white space bytes are tab, line feed,
  vertical tab, form feed, carriage return and space.\<close>

definition asciiSpace :: "char \<Rightarrow> bool" where
  "asciiSpace c = (byte c \<in> {9, 10, 11, 12, 13, 32})"

definition TrimSpace :: "string \<Rightarrow> string" where
  "TrimSpace s = rev (dropWhile asciiSpace (rev (dropWhile asciiSpace s)))"

subsection \<open>strconv\<close>

text \<open>\<open>strconv.Atoi\<close> with a 64-bit \<open>int\<close>: an optional sign, then one or more
  decimal digits and nothing else; a value outside the range of \<open>int\<close> is an error
  too. \<open>None\<close> stands for \<open>err != nil\<close>.\<close>

definition isDigit :: "char \<Rightarrow> bool" where
  "isDigit c = (48 \<le> byte c \<and> byte c \<le> 57)"

fun digitsValue :: "int \<Rightarrow> string \<Rightarrow> int" where
  "digitsValue n [] = n"
| "digitsValue n (ch # s) = digitsValue (n * 10 + int (byte ch - 48)) s"

definition Atoi :: "string \<Rightarrow> int option" where
  "Atoi s =
     (let neg = (s \<noteq> [] \<and> hd s = CHR ''-'');
          ds = (if s \<noteq> [] \<and> (hd s = CHR ''-'' \<or> hd s = CHR ''+'') then tl s else s)
      in if ds = [] \<or> \<not> list_all isDigit ds then None
         else let n = digitsValue 0 ds;
                  v = (if neg then - n else n)
              in if v < - (2 ^ 63) \<or> 2 ^ 63 - 1 < v then None else Some v)"


subsection \<open>path and path/filepath\<close>

text \<open>\<open>path.Split\<close>: the path up to and including its last slash, and the rest.\<close>

definition lastElem :: "string \<Rightarrow> string" where
  "lastElem p = rev (takeWhile (\<lambda>c. c \<noteq> CHR ''/'') (rev p))"

definition path_Split :: "string \<Rightarrow> string \<times> string" where
  "path_Split p = (take (length p - length (lastElem p)) p, lastElem p)"

text \<open>\<open>filepath.Base\<close>: \<open>"."\<close> for the empty path; else the trailing separators
  are dropped, then everything up to the last separator; a path of separators only
  gives \<open>"/"\<close>.\<close>

definition Base :: "string \<Rightarrow> string" where
  "Base p =
     (if p = [] then ''.''
      else let stripped = rev (dropWhile (\<lambda>c. c = Separator) (rev p));
               elem = rev (takeWhile (\<lambda>c. c \<noteq> Separator) (rev stripped))
           in if elem = [] then [Separator] else elem)"

subsection \<open>unicode/utf8\<close>

text \<open>\<open>utf8.DecodeRuneInString\<close>: the first code point of the string and the number
  of bytes it takes. An empty string gives \<open>(RuneError, 0)\<close>, a byte sequence that is
  not valid UTF-8 gives \<open>(RuneError, 1)\<close>. The second byte of a sequence must lie in the
  range its first byte accepts (this excludes overlong forms, surrogates and values above
  U+10FFFF), every later byte between 0x80 and 0xBF. The masks \<open>s0 & 0x1F\<close>,
  \<open>s0 & 0x0F\<close>, \<open>s0 & 0x07\<close> and \<open>s & 0x3F\<close> are written as remainders, the
  shifts as products.\<close>

definition RuneError :: nat where
  "RuneError = 65533"

definition acceptRange :: "nat \<Rightarrow> nat \<times> nat" where
  "acceptRange s0 =
     (if s0 = 0xE0 then (0xA0, 0xBF)
      else if s0 = 0xED then (0x80, 0x9F)
      else if s0 = 0xF0 then (0x90, 0xBF)
      else if s0 = 0xF4 then (0x80, 0x8F)
      else (0x80, 0xBF))"

definition DecodeRuneInString :: "string \<Rightarrow> nat \<times> nat" where
  "DecodeRuneInString s =
     (if s = [] then (RuneError, 0)
      else let s0 = byte (s ! 0) in
        if s0 < 0x80 then (s0, 1)
        else if s0 < 0xC2 \<or> 0xF4 < s0 then (RuneError, 1)
        else let sz = (if s0 < 0xE0 then 2 else if s0 < 0xF0 then 3 else (4::nat));
                 accept = acceptRange s0
             in if length s < sz then (RuneError, 1)
                else let s1 = byte (s ! 1) in
                  if s1 < fst accept \<or> snd accept < s1 then (RuneError, 1)
                  else if sz \<le> 2 then ((s0 mod 32) * 64 + s1 mod 64, 2)
                  else let s2 = byte (s ! 2) in
                    if s2 < 0x80 \<or> 0xBF < s2 then (RuneError, 1)
                    else if sz \<le> 3
                    then ((s0 mod 16) * 4096 + (s1 mod 64) * 64 + s2 mod 64, 3)
                    else let s3 = byte (s ! 3) in
                      if s3 < 0x80 \<or> 0xBF < s3 then (RuneError, 1)
                      else ((s0 mod 8) * 262144 + (s1 mod 64) * 4096
                              + (s2 mod 64) * 64 + s3 mod 64, 4))"

subsection \<open>filepath.Match\<close>

text \<open>The glob matcher of \<open>path/filepath\<close>. Its only error is \<open>ErrBadPattern\<close>,
  and every \<open>return\<close> that carries it returns \<open>matched = false\<close> with it: the result
  is \<open>Inl ErrBadPattern\<close> or \<open>Inr matched\<close>.\<close>

datatype error = ErrBadPattern

text \<open>\<open>scanChunk\<close> takes the leading stars off the pattern, then cuts it before the
  next star that is not inside a character class. An escaped byte is stepped over.\<close>

fun scanSplit :: "bool \<Rightarrow> string \<Rightarrow> string \<times> string" where
  "scanSplit inrange [] = ([], [])"
| "scanSplit inrange [c] =
     (if c = CHR ''*'' \<and> \<not> inrange then ([], [c]) else ([c], []))"
| "scanSplit inrange (c # d # ds) =
     (if c = backslash then
        (let (chunk, rest) = scanSplit inrange ds in (c # d # chunk, rest))
      else if c = CHR ''['' then
        (let (chunk, rest) = scanSplit True (d # ds) in (c # chunk, rest))
      else if c = CHR '']'' then
        (let (chunk, rest) = scanSplit False (d # ds) in (c # chunk, rest))
      else if c = CHR ''*'' \<and> \<not> inrange then ([], c # d # ds)
      else (let (chunk, rest) = scanSplit inrange (d # ds) in (c # chunk, rest)))"

definition scanChunk :: "string \<Rightarrow> bool \<times> string \<times> string" where
  "scanChunk pattern =
     (let star = (pattern \<noteq> [] \<and> hd pattern = CHR ''*'');
          pattern1 = dropWhile (\<lambda>c. c = CHR ''*'') pattern;
          (chunk, rest) = scanSplit False pattern1
      in (star, chunk, rest))"

text \<open>\<open>getEsc\<close> reads one, possibly escaped, code point of a character class. What
  follows it must not be empty, since the class still needs its closing bracket.\<close>

definition getEsc :: "string \<Rightarrow> error + (nat \<times> string)" where
  "getEsc chunk =
     (if chunk = [] \<or> hd chunk = CHR ''-'' \<or> hd chunk = CHR '']'' then Inl ErrBadPattern
      else let chunk1 = (if hd chunk = backslash then tl chunk else chunk) in
        if chunk1 = [] then Inl ErrBadPattern
        else let (r, n) = DecodeRuneInString chunk1;
                 nchunk = drop n chunk1
             in if (r = RuneError \<and> n = 1) \<or> nchunk = [] then Inl ErrBadPattern
                else Inr (r, nchunk))"

text \<open>Both loops of \<open>matchChunk\<close> end because each step consumes at least one byte of
  the chunk.\<close>

lemma DecodeRuneInString_size: "s \<noteq> [] \<Longrightarrow> 0 < snd (DecodeRuneInString s)"
  by (simp add: DecodeRuneInString_def Let_def)

lemma getEsc_shorter: "getEsc chunk = Inr (r, nchunk) \<Longrightarrow> length nchunk < length chunk"
  using DecodeRuneInString_size [of chunk] DecodeRuneInString_size [of "tl chunk"]
  by (auto simp: getEsc_def Let_def split: if_splits prod.splits)

text \<open>The ranges of a character class, up to its closing bracket: \<open>match\<close> records
  whether the code point \<open>r\<close> lies in one of them. A bracket that comes first
  (\<open>nrange = 0\<close>) is not the closing one.\<close>

function classRanges :: "string \<Rightarrow> nat \<Rightarrow> bool \<Rightarrow> nat \<Rightarrow> error + (bool \<times> string)" where
  "classRanges chunk r match nrange =
     (if chunk \<noteq> [] \<and> hd chunk = CHR '']'' \<and> 0 < nrange then Inr (match, tl chunk)
      else case getEsc chunk of
          Inl err \<Rightarrow> Inl err
        | Inr (lo, chunk1) \<Rightarrow>
            if hd chunk1 = CHR ''-'' then
              (case getEsc (tl chunk1) of
                  Inl err \<Rightarrow> Inl err
                | Inr (hi, chunk2) \<Rightarrow>
                    classRanges chunk2 r (match \<or> (lo \<le> r \<and> r \<le> hi)) (nrange + 1))
            else classRanges chunk1 r (match \<or> (lo \<le> r \<and> r \<le> lo)) (nrange + 1))"
  by pat_completeness auto
termination
proof (relation "measure (\<lambda>(chunk, r, match, nrange). length chunk)")
  show "wf (measure (\<lambda>(chunk, r, match, nrange). length chunk))" by simp
next
  fix chunk r match nrange x lo chunk1 y hi chunk2
  assume "getEsc chunk = Inr x" "(lo, chunk1) = x" "getEsc (tl chunk1) = Inr y" "(hi, chunk2) = y"
  then have "length chunk1 < length chunk" "length chunk2 < length (tl chunk1)"
    using getEsc_shorter by metis+
  then show "((chunk2, r, match \<or> lo \<le> r \<and> r \<le> hi, nrange + 1), chunk, r, match, nrange)
       \<in> measure (\<lambda>(chunk, r, match, nrange). length chunk)" by simp
next
  fix chunk r match nrange x lo chunk1
  assume "getEsc chunk = Inr x" "(lo, chunk1) = x"
  then have "length chunk1 < length chunk"
    using getEsc_shorter by metis
  then show "((chunk1, r, match \<or> lo \<le> r \<and> r \<le> lo, nrange + 1), chunk, r, match, nrange)
       \<in> measure (\<lambda>(chunk, r, match, nrange). length chunk)" by simp
qed


declare classRanges.simps [simp del]

lemma classRanges_shorter:
  "classRanges chunk r match nrange = Inr (m, rest) \<Longrightarrow> length rest \<le> length chunk"
proof (induction chunk r match nrange rule: classRanges.induct)
  case (1 chunk r match nrange)
  show ?case
  proof (cases "chunk \<noteq> [] \<and> hd chunk = CHR '']'' \<and> 0 < nrange")
    case True
    with "1.prems" show ?thesis by (auto simp: classRanges.simps [of chunk])
  next
    case False
    note cr = classRanges.simps [of chunk r match nrange]
    from False obtain lo chunk1 where e1: "getEsc chunk = Inr (lo, chunk1)"
      using "1.prems" by (auto simp: cr split: sum.splits)
    have l1: "length chunk1 < length chunk" using e1 by (rule getEsc_shorter)
    show ?thesis
    proof (cases "hd chunk1 = CHR ''-''")
      case dash: True
      then obtain hi chunk2 where e2: "getEsc (tl chunk1) = Inr (hi, chunk2)"
        using "1.prems" False e1 by (auto simp: cr split: sum.splits)
      have l2: "length chunk2 < length (tl chunk1)" using e2 by (rule getEsc_shorter)
      have "classRanges chunk2 r (match \<or> (lo \<le> r \<and> r \<le> hi)) (nrange + 1) = Inr (m, rest)"
        using "1.prems" False e1 e2 dash by (simp add: cr)
      then have "length rest \<le> length chunk2"
        using "1.IH"(1) [OF False e1 refl dash e2 refl] by simp
      with l1 l2 show ?thesis by simp
    next
      case nodash: False
      have "classRanges chunk1 r (match \<or> (lo \<le> r \<and> r \<le> lo)) (nrange + 1) = Inr (m, rest)"
        using "1.prems" False e1 nodash by (simp add: cr)
      then have "length rest \<le> length chunk1"
        using "1.IH"(2) [OF False e1 refl nodash] by simp
      with l1 show ?thesis by simp
    qed
  qed
qed

text \<open>\<open>matchChunk\<close>: the chunk is read to its end even after the match has failed, so
  that a malformed chunk is reported whatever the name is. The result is the rest of the
  name and \<open>ok\<close>.\<close>

function matchChunk_from :: "string \<Rightarrow> string \<Rightarrow> bool \<Rightarrow> error + (string \<times> bool)" where
  "matchChunk_from chunk s failed0 =
     (if chunk = [] then (if failed0 then Inr ([], False) else Inr (s, True))
      else let failed = (failed0 \<or> s = []) in
        if hd chunk = CHR ''['' then
          (let (r, s1) = (if \<not> failed
                          then (fst (DecodeRuneInString s), drop (snd (DecodeRuneInString s)) s)
                          else (0, s));
               chunk1 = tl chunk;
               negated = (chunk1 \<noteq> [] \<and> hd chunk1 = CHR ''^'');
               chunk2 = (if negated then tl chunk1 else chunk1)
           in case classRanges chunk2 r False 0 of
                 Inl err \<Rightarrow> Inl err
               | Inr (match, chunk3) \<Rightarrow>
                   matchChunk_from chunk3 s1 (failed \<or> match = negated))
        else if hd chunk = CHR ''?'' then
          (if \<not> failed
           then matchChunk_from (tl chunk) (drop (snd (DecodeRuneInString s)) s)
                  (hd s = Separator)
           else matchChunk_from (tl chunk) s failed)
        else if hd chunk = backslash then
          (let chunk1 = tl chunk in
             if chunk1 = [] then Inl ErrBadPattern
             else if \<not> failed
             then matchChunk_from (tl chunk1) (tl s) (hd chunk1 \<noteq> hd s)
             else matchChunk_from (tl chunk1) s failed)
        else
          (if \<not> failed
           then matchChunk_from (tl chunk) (tl s) (hd chunk \<noteq> hd s)
           else matchChunk_from (tl chunk) s failed))"
  by pat_completeness auto
termination
  apply (relation "measure (\<lambda>(chunk, s, failed). length chunk)")
  apply (auto dest!: classRanges_shorter split: if_splits)
  apply (case_tac chunk; simp)+
  done

declare matchChunk_from.simps [simp del]

definition matchChunk :: "string \<Rightarrow> string \<Rightarrow> error + (string \<times> bool)" where
  "matchChunk chunk s = matchChunk_from chunk s False"

lemma scanSplit_append: "scanSplit inrange p = (chunk, rest) \<Longrightarrow> chunk @ rest = p"
  by (induction inrange p arbitrary: chunk rest rule: scanSplit.induct)
     (auto split: if_splits prod.splits)

lemma scanSplit_nonempty:
  "p \<noteq> [] \<Longrightarrow> hd p \<noteq> CHR ''*'' \<Longrightarrow> fst (scanSplit inrange p) \<noteq> []"
  by (cases "(inrange, p)" rule: scanSplit.cases) (auto split: prod.splits)

lemma scanChunk_shorter:
  assumes "pattern \<noteq> []" and "scanChunk pattern = (star, chunk, rest)"
  shows "length rest < length pattern"
proof -
  let ?p1 = "dropWhile (\<lambda>c. c = CHR ''*'') pattern"
  have sp: "scanSplit False ?p1 = (chunk, rest)"
    using assms(2) by (simp add: scanChunk_def Let_def split: prod.splits)
  then have app: "chunk @ rest = ?p1" by (rule scanSplit_append)
  show ?thesis
  proof (cases "hd pattern = CHR ''*''")
    case True
    with assms(1) have "length ?p1 < length pattern"
      by (cases pattern) (auto intro: le_imp_less_Suc length_dropWhile_le)
    moreover have "length rest \<le> length ?p1" using app [symmetric] by simp
    ultimately show ?thesis by simp
  next
    case False
    with assms(1) have p1: "?p1 = pattern" by (cases pattern) auto
    have "fst (scanSplit False pattern) \<noteq> []"
      using assms(1) False by (rule scanSplit_nonempty)
    with sp p1 have "chunk \<noteq> []" by simp
    with app p1 show ?thesis by (metis length_append length_greater_0_conv less_add_same_cancel2 add.commute)
  qed
qed

text \<open>The remainder of a pattern whose match has failed is still checked for syntax.\<close>

function checkRest :: "string \<Rightarrow> error option" where
  "checkRest pattern =
     (if pattern = [] then None
      else case scanChunk pattern of (star, chunk, rest) \<Rightarrow>
        (case matchChunk chunk [] of
            Inl err \<Rightarrow> Some err
          | Inr res \<Rightarrow> checkRest rest))"
  by pat_completeness auto
termination
  by (relation "measure length") (auto dest: scanChunk_shorter [OF _ sym])

declare checkRest.simps [simp del]

text \<open>After a star, the chunk is tried at every later position of the name, up to the
  first separator. \<open>Inr (Some t)\<close> is \<open>continue Pattern\<close> with \<open>name = t\<close>,
  \<open>Inr None\<close> is the loop running out.\<close>

fun starLoop :: "string \<Rightarrow> bool \<Rightarrow> string \<Rightarrow> error + string option" where
  "starLoop chunk lastChunk [] = Inr None"
| "starLoop chunk lastChunk (c # name1) =
     (if c = Separator then Inr None
      else case matchChunk chunk name1 of
          Inl err \<Rightarrow> Inl err
        | Inr (t, ok) \<Rightarrow>
            if ok \<and> \<not> (lastChunk \<and> t \<noteq> []) then Inr (Some t)
            else starLoop chunk lastChunk name1)"

text \<open>\<open>Match\<close> itself: chunk after chunk, each one anchored where the last one
  ended unless a star came before it.\<close>

function Match :: "string \<Rightarrow> string \<Rightarrow> error + bool" where
  "Match pattern name =
     (if pattern = [] then Inr (name = [])
      else case scanChunk pattern of (star, chunk, rest) \<Rightarrow>
        if star \<and> chunk = [] then Inr (Separator \<notin> set name)
        else (case matchChunk chunk name of
            Inl err \<Rightarrow> Inl err
          | Inr (t, ok) \<Rightarrow>
              if ok \<and> (t = [] \<or> rest \<noteq> []) then Match rest t
              else (case (if star then starLoop chunk (rest = []) name else Inr None) of
                  Inl err \<Rightarrow> Inl err
                | Inr (Some t1) \<Rightarrow> Match rest t1
                | Inr None \<Rightarrow>
                    (case checkRest rest of Some err \<Rightarrow> Inl err | None \<Rightarrow> Inr False))))"
  by pat_completeness auto
termination
  by (relation "measure (\<lambda>(pattern, name). length pattern)")
     (auto dest: scanChunk_shorter [OF _ sym])

declare Match.simps [simp del]

section \<open>rlog: levels, filters and filter specifications\<close>

text \<open>Levels are Go \<open>int\<close>s. They are only compared and stored, never computed with,
  so they are integers here; \<open>Atoi\<close> keeps what it parses inside the 64-bit range.\<close>

definition notATrace :: int where "notATrace = - 1"
definition noTraceOutput :: int where "noTraceOutput = - 1"

definition levelNone :: int where "levelNone = 0"
definition levelCrit :: int where "levelCrit = 1"
definition levelErr :: int where "levelErr = 2"
definition levelWarn :: int where "levelWarn = 3"
definition levelInfo :: int where "levelInfo = 4"
definition levelDebug :: int where "levelDebug = 5"
definition levelTrace :: int where "levelTrace = 6"

definition levelNumbers :: "string \<rightharpoonup> int" where
  "levelNumbers = map_of
     [(''TRACE'', levelTrace), (''DEBUG'', levelDebug), (''INFO'', levelInfo),
      (''WARN'', levelWarn), (''ERROR'', levelErr), (''CRITICAL'', levelCrit),
      (''NONE'', levelNone)]"

record rlog_filter =
  Pattern :: string
  Level :: int

record filterSpec =
  filters :: "rlog_filter list"

text \<open>\<open>new(filterSpec)\<close>: no filters yet.\<close>

definition new_filterSpec :: filterSpec where
  "new_filterSpec = \<lparr>filters = []\<rparr>"

subsection \<open>filter.match\<close>

text \<open>The error of \<open>filepath.Match\<close> is assigned to \<open>_\<close>; with it, \<open>match\<close> is
  false.\<close>

definition filter_match :: "rlog_filter \<Rightarrow> string \<Rightarrow> int \<Rightarrow> bool \<times> bool" where
  "filter_match f filename level =
     (let match = (if Pattern f \<noteq> []
                   then (case Match (Pattern f) (Base filename) of
                           Inl err \<Rightarrow> False
                         | Inr matched \<Rightarrow> matched)
                   else True)
      in if match then (True, level \<le> Level f) else (False, False))"

subsection \<open>filterSpec.matchfilters\<close>

fun matchfilters_loop :: "rlog_filter list \<Rightarrow> string \<Rightarrow> int \<Rightarrow> bool" where
  "matchfilters_loop [] filename level = False"
| "matchfilters_loop (f # fs) filename level =
     (case filter_match f filename level of
        (matched, loggit) \<Rightarrow>
          if matched then loggit else matchfilters_loop fs filename level)"

definition matchfilters :: "filterSpec \<Rightarrow> string \<Rightarrow> int \<Rightarrow> bool" where
  "matchfilters spec filename level =
     (if length (filters spec) = 0 then False
      else matchfilters_loop (filters spec) filename level)"

subsection \<open>filterSpec.fromString\<close>

text \<open>One turn of the loop over the comma-separated fields, in two halves. The first
  half reads the field: \<open>None\<close> is a \<open>continue\<close>, \<open>Some (matchToken, filterLevel)\<close>
  is what reaches the end of the loop body. A field with one token is a global level, a
  field with two is pattern and level, anything else is skipped; \<open>tokens[0]\<close> and
  \<open>tokens[1]\<close> are only read under the matching \<open>len(tokens)\<close>.\<close>

definition fromString_token :: "bool \<Rightarrow> string \<Rightarrow> (string \<times> int) option" where
  "fromString_token isTraceLevels f =
     (case (case Split f (CHR ''='') of
              [t0] \<Rightarrow> Some ([], t0)
            | [t0, t1] \<Rightarrow> Some (t0, t1)
            | _ \<Rightarrow> None) of
        None \<Rightarrow> None
      | Some (matchToken, levelToken) \<Rightarrow>
          (case (if isTraceLevels then Atoi levelToken
                 else (case levelNumbers (ToUpper levelToken) of
                         None \<Rightarrow> None
                       | Some filterLevel \<Rightarrow>
                           if filterLevel = levelTrace then None else Some filterLevel)) of
             None \<Rightarrow> None
           | Some filterLevel \<Rightarrow> Some (matchToken, filterLevel)))"

text \<open>The second half updates the state: the global level remembered so far and the
  filters appended so far.\<close>

definition fromString_step ::
  "bool \<Rightarrow> int \<times> rlog_filter list \<Rightarrow> string \<Rightarrow> int \<times> rlog_filter list" where
  "fromString_step isTraceLevels st f =
     (case st of (globalLevel, fs) \<Rightarrow>
        (case fromString_token isTraceLevels f of
           None \<Rightarrow> (globalLevel, fs)
         | Some (matchToken, filterLevel) \<Rightarrow>
             if matchToken = [] then (filterLevel, fs)
             else (globalLevel, fs @ [\<lparr>Pattern = matchToken, Level = filterLevel\<rparr>])))"

primrec fromString_loop ::
  "bool \<Rightarrow> string list \<Rightarrow> int \<times> rlog_filter list \<Rightarrow> int \<times> rlog_filter list" where
  "fromString_loop isTraceLevels [] st = st"
| "fromString_loop isTraceLevels (f # later) st =
     fromString_loop isTraceLevels later (fromString_step isTraceLevels st f)"

definition fromString :: "filterSpec \<Rightarrow> string \<Rightarrow> bool \<Rightarrow> int \<Rightarrow> filterSpec" where
  "fromString spec s isTraceLevels globalLevelDefault =
     (case fromString_loop isTraceLevels (Split s (CHR '',''))
             (globalLevelDefault, filters spec) of
        (globalLevel, fs) \<Rightarrow>
          if \<not> isTraceLevels \<or> globalLevel \<noteq> noTraceOutput
          then spec\<lparr>filters := fs @ [\<lparr>Pattern = [], Level = globalLevel\<rparr>]\<rparr>
          else spec\<lparr>filters := fs\<rparr>)"

section \<open>rlog: merging the config file into the environment's configuration\<close>

record rlogEnvConfig =
  logLevel :: string
  traceLevel :: string
  logTimeFormat :: string
  logFile :: string
  confFile :: string
  logStream :: string
  logNoTime :: string
  showCallerInfo :: string

definition updateIfNeeded :: "string \<Rightarrow> string \<Rightarrow> bool \<Rightarrow> string" where
  "updateIfNeeded oldVal newVal priority =
     (if priority \<or> oldVal = [] then newVal else oldVal)"

text \<open>What \<open>updateConfigFromFile\<close> writes to standard error, with the line number.\<close>

datatype diagnostic =
    MalformedLine nat
  | IgnoredConfFileChange nat
  | UnknownSettingName nat

text \<open>A run-time panic of Go: an index past the end of a string.\<close>

datatype panic = IndexOutOfRange

text \<open>The body of the scanner loop for line number \<open>i\<close> with text \<open>text\<close>
  (\<open>scanner.Text()\<close>). \<open>name[0]\<close> is read without a check of \<open>len(name)\<close>.\<close>

definition updateConfigFromLine ::
  "nat \<Rightarrow> string \<Rightarrow> rlogEnvConfig \<times> diagnostic list
     \<Rightarrow> panic + (rlogEnvConfig \<times> diagnostic list)" where
  "updateConfigFromLine i text st =
     (case st of (config, diags) \<Rightarrow>
        let line = TrimSpace text in
        if line = [] then Inr (config, diags)
        else
          let tokens = SplitN2 line (CHR ''='') in
          if length tokens = 0 then Inr (config, diags)
          else if length tokens \<noteq> 2 then Inr (config, diags @ [MalformedLine i])
          else
            let name0 = TrimSpace (tokens ! 0);
                val = TrimSpace (tokens ! 1)
            in if name0 = [] then Inl IndexOutOfRange
               else
                 let priority = (name0 ! 0 = CHR ''!'');
                     name = (if priority then tl name0 else name0)
                 in if name = ''RLOG_LOG_LEVEL'' then
                      Inr (config\<lparr>logLevel := updateIfNeeded (logLevel config) val priority\<rparr>, diags)
                    else if name = ''RLOG_TRACE_LEVEL'' then
                      Inr (config\<lparr>traceLevel := updateIfNeeded (traceLevel config) val priority\<rparr>, diags)
                    else if name = ''RLOG_TIME_FORMAT'' then
                      Inr (config\<lparr>logTimeFormat :=
                             updateIfNeeded (logTimeFormat config) val priority\<rparr>, diags)
                    else if name = ''RLOG_LOG_FILE'' then
                      Inr (config\<lparr>logFile := updateIfNeeded (logFile config) val priority\<rparr>, diags)
                    else if name = ''RLOG_CONF_FILE'' then
                      Inr (config, diags @ [IgnoredConfFileChange i])
                    else if name = ''RLOG_LOG_STREAM'' then
                      Inr (config\<lparr>logStream :=
                             updateIfNeeded (logStream config) (ToUpper val) priority\<rparr>, diags)
                    else if name = ''RLOG_LOG_NOTIME'' then
                      Inr (config\<lparr>logNoTime := updateIfNeeded (logNoTime config) val priority\<rparr>, diags)
                    else if name = ''RLOG_CALLER_INFO'' then
                      Inr (config\<lparr>showCallerInfo :=
                             updateIfNeeded (showCallerInfo config) val priority\<rparr>, diags)
                    else Inr (config, diags @ [UnknownSettingName i]))"

text \<open>The loop \<open>for scanner.Scan()\<close>, over the lines the scanner delivers; \<open>i\<close> is
  the number of lines read before.\<close>

fun updateConfigFromFile_loop ::
  "nat \<Rightarrow> string list \<Rightarrow> rlogEnvConfig \<times> diagnostic list
     \<Rightarrow> panic + (rlogEnvConfig \<times> diagnostic list)" where
  "updateConfigFromFile_loop i [] st = Inr st"
| "updateConfigFromFile_loop i (text # later) st =
     (case updateConfigFromLine (i + 1) text st of
        Inl p \<Rightarrow> Inl p
      | Inr st1 \<Rightarrow> updateConfigFromFile_loop (i + 1) later st1)"

text \<open>The file is \<open>None\<close> when \<open>os.Open\<close> fails (the config is then left as it is),
  else its lines.\<close>

definition updateConfigFromFile ::
  "string list option \<Rightarrow> rlogEnvConfig \<Rightarrow> panic + (rlogEnvConfig \<times> diagnostic list)" where
  "updateConfigFromFile file config =
     (case file of
        None \<Rightarrow> Inr (config, [])
      | Some lines \<Rightarrow> updateConfigFromFile_loop 0 lines (config, []))"

section \<open>rlog: the boolean recognizer\<close>


section \<open>rlog: the dispatch gate\<close>

text \<open>The part of \<open>basicLog\<close> that decides whether the message is logged.
  \<open>runtime.Caller(2)\<close> is an input: \<open>ok\<close> and the full path of the caller's file.
  The path is cut down to its last two elements, module and file. The level
  parameters carry a prime, their names being fields of \<open>rlogEnvConfig\<close>.\<close>

definition moduleAndFileName :: "bool \<Rightarrow> string \<Rightarrow> string" where
  "moduleAndFileName ok fullFilePath =
     (if ok then
        (case path_Split fullFilePath of
           (dirPath, fileName) \<Rightarrow>
             let moduleName = (if dirPath \<noteq> [] then snd (path_Split (butlast dirPath)) else [])
             in moduleName @ ''/'' @ fileName)
      else [])"

definition basicLog_allowLog ::
  "filterSpec \<Rightarrow> filterSpec \<Rightarrow> bool \<Rightarrow> string \<Rightarrow> int \<Rightarrow> int \<Rightarrow> bool" where
  "basicLog_allowLog logFilterSpec traceFilterSpec ok fullFilePath logLevel' traceLevel' =
     (if traceLevel' = notATrace
      then matchfilters logFilterSpec (moduleAndFileName ok fullFilePath) logLevel'
      else matchfilters traceFilterSpec (moduleAndFileName ok fullFilePath) traceLevel')"

text \<open>\<open>Trace\<close> and \<open>Tracef\<close> call \<open>basicLog\<close> only when the trace filter chain is
  not empty.\<close>

definition Trace_allowLog ::
  "filterSpec \<Rightarrow> filterSpec \<Rightarrow> bool \<Rightarrow> string \<Rightarrow> int \<Rightarrow> bool" where
  "Trace_allowLog logFilterSpec traceFilterSpec ok fullFilePath traceLevel' =
     (if 0 < length (filters traceFilterSpec)
      then basicLog_allowLog logFilterSpec traceFilterSpec ok fullFilePath levelTrace traceLevel'
      else False)"

section \<open>Properties of the filter\<close>

lemma Base_of_dir_file:
  assumes "base \<noteq> []" and "Separator \<notin> set base"
  shows "Base (dir @ [Separator] @ base) = base"
proof -
  from assms(1) have "last base \<noteq> Separator"
    using assms(2) last_in_set by metis
  then have a: "dropWhile (\<lambda>c. c = Separator) (rev base @ Separator # rev dir)
                  = rev base @ Separator # rev dir"
    using assms(1) by (cases base rule: rev_cases) auto
  have b: "takeWhile (\<lambda>c. c \<noteq> Separator) (rev base @ Separator # rev dir) = rev base"
    using assms(2) by (auto simp: takeWhile_tail takeWhile_eq_all_conv)
  show ?thesis using assms(1) by (simp add: Base_def Let_def a b)
qed

lemma Base_plain:
  assumes "base \<noteq> []" and "Separator \<notin> set base"
  shows "Base base = base"
proof -
  from assms(1) have "last base \<noteq> Separator"
    using assms(2) last_in_set by metis
  then have a: "dropWhile (\<lambda>c. c = Separator) (rev base) = rev base"
    using assms(1) by (cases base rule: rev_cases) auto
  have b: "takeWhile (\<lambda>c. c \<noteq> Separator) (rev base) = rev base"
    using assms(2) by (auto simp: takeWhile_eq_all_conv)
  show ?thesis using assms(1) by (simp add: Base_def Let_def a b)
qed

text \<open>
  \<^bold>\<open>C1.\<close> For every filter: with an empty pattern, \<open>match\<close> reports
  \<open>patternMatched\<close> for every file name; with a non-empty pattern,
  \<open>patternMatched\<close> is the glob match of the pattern against \<open>filepath.Base\<close> of the
  file name, so that the directories in front of a (non-empty, slash-free) base name do
  not change the result; \<open>shouldLog\<close> is true exactly when \<open>patternMatched\<close> is and
  the level is at most the filter's threshold.
\<close>

theorem filter_match_pattern_and_level:
  "fst (filter_match f fileName level)
     = (Pattern f = [] \<or> Match (Pattern f) (Base fileName) = Inr True)
   \<and> snd (filter_match f fileName level)
     = (fst (filter_match f fileName level) \<and> level \<le> Level f)
   \<and> (base \<noteq> [] \<and> Separator \<notin> set base \<longrightarrow>
        Base (dir @ [Separator] @ base) = base
        \<and> filter_match f (dir @ [Separator] @ base) level = filter_match f base level)"
proof -
  have m: "fst (filter_match f fileName level)
     = (Pattern f = [] \<or> Match (Pattern f) (Base fileName) = Inr True)"
    by (auto simp: filter_match_def Let_def split: sum.splits)
  have l: "snd (filter_match f fileName level)
     = (fst (filter_match f fileName level) \<and> level \<le> Level f)"
    by (simp add: filter_match_def Let_def)
  have d: "filter_match f (dir @ [Separator] @ base) level = filter_match f base level"
    if "base \<noteq> []" "Separator \<notin> set base"
    using Base_of_dir_file [OF that] Base_plain [OF that]
    by (simp add: filter_match_def)
  show ?thesis using m l d Base_of_dir_file by blast
qed

theorem filter_match_pattern_and_level_witness:
  "fst (filter_match \<lparr>Pattern = ''*.go'', Level = levelInfo\<rparr> ''rlog/a.go'' levelWarn) = True
   \<and> snd (filter_match \<lparr>Pattern = ''*.go'', Level = levelInfo\<rparr> ''rlog/a.go'' levelWarn) = True
   \<and> Base (''rlog'' @ [Separator] @ ''a.go'') = ''a.go''
   \<and> filter_match \<lparr>Pattern = ''*.go'', Level = levelInfo\<rparr>
         (''rlog'' @ [Separator] @ ''a.go'') levelWarn
       = filter_match \<lparr>Pattern = ''*.go'', Level = levelInfo\<rparr> ''a.go'' levelWarn"
proof -
  have m: "Match ''*.go'' (Base ''rlog/a.go'') = Inr True" by code_simp
  have s: "''a.go'' \<noteq> [] \<and> Separator \<notin> set ''a.go''" by (simp add: Separator_def)
  note t = filter_match_pattern_and_level
    [where f = "\<lparr>Pattern = ''*.go'', Level = levelInfo\<rparr>" and fileName = "''rlog/a.go''"
       and level = levelWarn and base = "''a.go''" and dir = "''rlog''"]
  show ?thesis using t m s by (simp add: levelWarn_def levelInfo_def)
qed

section \<open>Properties of the filter specification's query\<close>

lemma matchfilters_loop_find:
  "matchfilters_loop fs fileName level =
     (case List.find (\<lambda>f. fst (filter_match f fileName level)) fs of
        None \<Rightarrow> False
      | Some f \<Rightarrow> snd (filter_match f fileName level))"
  by (induction fs) (auto split: prod.splits)

text \<open>
  \<^bold>\<open>C2.\<close> \<open>matchfilters\<close> returns false on an empty rule sequence; otherwise it
  returns \<open>shouldLog\<close> of the first rule, in sequence order, whose \<open>patternMatched\<close>
  is true, and false when there is none. With the rules \<open>a.go = ERROR\<close> and then the
  global rule \<open>WARN\<close>, the query \<open>(a.go, WARN)\<close> is rejected, although the global
  rule alone accepts it.
\<close>

theorem matchfilters_first_matching_rule:
  "matchfilters \<lparr>filters = []\<rparr> fileName level = False
   \<and> matchfilters spec fileName level =
       (case List.find (\<lambda>f. fst (filter_match f fileName level)) (filters spec) of
          None \<Rightarrow> False
        | Some f \<Rightarrow> snd (filter_match f fileName level))
   \<and> matchfilters \<lparr>filters = [\<lparr>Pattern = ''a.go'', Level = levelErr\<rparr>,
                               \<lparr>Pattern = [], Level = levelWarn\<rparr>]\<rparr> ''a.go'' levelWarn = False
   \<and> matchfilters \<lparr>filters = [\<lparr>Pattern = [], Level = levelWarn\<rparr>]\<rparr> ''a.go'' levelWarn = True"
proof -
  have e: "matchfilters \<lparr>filters = []\<rparr> fileName level = False"
    by (simp add: matchfilters_def)
  have g: "matchfilters spec fileName level =
       (case List.find (\<lambda>f. fst (filter_match f fileName level)) (filters spec) of
          None \<Rightarrow> False
        | Some f \<Rightarrow> snd (filter_match f fileName level))"
    by (cases "filters spec = []") (simp_all add: matchfilters_def matchfilters_loop_find)
  have m: "Match ''a.go'' (Base ''a.go'') = Inr True" by code_simp
  have x1: "matchfilters \<lparr>filters = [\<lparr>Pattern = ''a.go'', Level = levelErr\<rparr>,
                               \<lparr>Pattern = [], Level = levelWarn\<rparr>]\<rparr> ''a.go'' levelWarn = False"
    using m by (simp add: matchfilters_def filter_match_def levelErr_def levelWarn_def)
  have x2: "matchfilters \<lparr>filters = [\<lparr>Pattern = [], Level = levelWarn\<rparr>]\<rparr> ''a.go'' levelWarn
              = True"
    by (simp add: matchfilters_def filter_match_def)
  show ?thesis using e g x1 x2 by blast
qed

section \<open>A malformed pattern is reported whatever the name is\<close>

text \<open>The ranges of a character class are parsed the same way whatever code point is
  tested against them.\<close>

lemma classRanges_rest_indep:
  "map_sum (\<lambda>e. e) snd (classRanges chunk r m n) = map_sum (\<lambda>e. e) snd (classRanges chunk r' m' n)"
proof (induction chunk r m n arbitrary: r' m' rule: classRanges.induct)
  case (1 chunk r match nrange)
  show ?case
  proof (cases "chunk \<noteq> [] \<and> hd chunk = CHR '']'' \<and> 0 < nrange")
    case True
    then show ?thesis
      by (simp add: classRanges.simps [of chunk])
  next
    case False
    show ?thesis
    proof (cases "getEsc chunk")
      case (Inl e)
      with False show ?thesis by (auto simp: classRanges.simps [of chunk])
    next
      case (Inr x)
      obtain lo chunk1 where x: "x = (lo, chunk1)" by (cases x)
      note e1 = Inr [unfolded x]
      show ?thesis
      proof (cases "hd chunk1 = CHR ''-''")
        case dash: True
        show ?thesis
        proof (cases "getEsc (tl chunk1)")
          case (Inl e)
          with False e1 dash show ?thesis by (auto simp: classRanges.simps [of chunk])
        next
          case (Inr y)
          obtain hi chunk2 where y: "y = (hi, chunk2)" by (cases y)
          note e2 = Inr [unfolded y]
          from "1.IH"(1) [OF False e1 refl dash e2 refl]
          have "map_sum (\<lambda>e. e) snd (classRanges chunk2 r (match \<or> (lo \<le> r \<and> r \<le> hi)) (nrange + 1))
              = map_sum (\<lambda>e. e) snd (classRanges chunk2 r' (m' \<or> (lo \<le> r' \<and> r' \<le> hi)) (nrange + 1))" .
          with False e1 e2 dash show ?thesis by (auto simp: classRanges.simps [of chunk])
        qed
      next
        case nodash: False
        from "1.IH"(2) [OF False e1 refl nodash]
        have "map_sum (\<lambda>e. e) snd (classRanges chunk1 r (match \<or> (lo \<le> r \<and> r \<le> lo)) (nrange + 1))
            = map_sum (\<lambda>e. e) snd (classRanges chunk1 r' (m' \<or> (lo \<le> r' \<and> r' \<le> lo)) (nrange + 1))" .
        with False e1 nodash show ?thesis by (auto simp: classRanges.simps [of chunk])
      qed
    qed
  qed
qed

lemma classRanges_Inl_indep:
  assumes "classRanges chunk r m n = Inl e"
  shows "classRanges chunk r' m' n = Inl e"
proof (cases "classRanges chunk r' m' n")
  case (Inl e')
  then show ?thesis by (cases e; cases e') simp
next
  case (Inr x)
  have "map_sum (\<lambda>e. e) snd (classRanges chunk r' m' n)
          = map_sum (\<lambda>e. e) snd (classRanges chunk r m n)"
    by (rule classRanges_rest_indep)
  then have False unfolding Inr assms by simp
  then show ?thesis ..
qed

lemma classRanges_Inr_indep:
  assumes "classRanges chunk r m n = Inr (x, rest)"
  shows "\<exists>x'. classRanges chunk r' m' n = Inr (x', rest)"
proof (cases "classRanges chunk r' m' n")
  case (Inl e')
  have "map_sum (\<lambda>e. e) snd (classRanges chunk r' m' n)
          = map_sum (\<lambda>e. e) snd (classRanges chunk r m n)"
    by (rule classRanges_rest_indep)
  then have False unfolding Inl assms by simp
  then show ?thesis ..
next
  case (Inr y)
  have "map_sum (\<lambda>e. e) snd (classRanges chunk r' m' n)
          = map_sum (\<lambda>e. e) snd (classRanges chunk r m n)"
    by (rule classRanges_rest_indep)
  then have "snd y = rest" unfolding Inr assms by simp
  then show ?thesis using Inr by (cases y) simp
qed

text \<open>So \<open>matchChunk\<close> reports a malformed chunk whatever the name is.\<close>

lemma matchChunk_from_error_indep:
  "matchChunk_from chunk s failed = Inl e \<Longrightarrow> matchChunk_from chunk s' failed' = Inl e"
proof (induction "length chunk" arbitrary: chunk s failed s' failed' rule: less_induct)
  case less
  note step = matchChunk_from.simps [of chunk]
  show ?case
  proof (cases "chunk = []")
    case True
    with less.prems show ?thesis
      by (simp add: matchChunk_from.simps [of "[]"] split: if_splits)
  next
    case ne: False
    then have tl_less: "length (tl chunk) < length chunk" by (cases chunk) auto
    consider (bracket) "hd chunk = CHR ''[''"
      | (any) "hd chunk \<noteq> CHR ''[''" "hd chunk = CHR ''?''"
      | (esc) "hd chunk \<noteq> CHR ''[''" "hd chunk \<noteq> CHR ''?''" "hd chunk = backslash"
      | (lit) "hd chunk \<noteq> CHR ''[''" "hd chunk \<noteq> CHR ''?''" "hd chunk \<noteq> backslash"
      by blast
    then show ?thesis
    proof cases
      case bracket
      define negated where "negated = (tl chunk \<noteq> [] \<and> hd (tl chunk) = CHR ''^'')"
      define chunk2 where "chunk2 = (if negated then tl (tl chunk) else tl chunk)"
      have l2: "length chunk2 < length chunk"
        using tl_less by (auto simp: chunk2_def)
      define r where "r = (if \<not> (failed \<or> s = []) then fst (DecodeRuneInString s) else 0)"
      define s1 where
        "s1 = (if \<not> (failed \<or> s = []) then drop (snd (DecodeRuneInString s)) s else s)"
      define r' where "r' = (if \<not> (failed' \<or> s' = []) then fst (DecodeRuneInString s') else 0)"
      define s1' where
        "s1' = (if \<not> (failed' \<or> s' = []) then drop (snd (DecodeRuneInString s')) s' else s')"
      have u: "matchChunk_from chunk s failed =
          (case classRanges chunk2 r False 0 of
             Inl err \<Rightarrow> Inl err
           | Inr (match, chunk3) \<Rightarrow>
               matchChunk_from chunk3 s1 ((failed \<or> s = []) \<or> match = negated))"
        using ne bracket
        by (subst step)
           (auto simp: Let_def negated_def chunk2_def r_def s1_def split: sum.splits prod.splits)
      have u': "matchChunk_from chunk s' failed' =
          (case classRanges chunk2 r' False 0 of
             Inl err \<Rightarrow> Inl err
           | Inr (match, chunk3) \<Rightarrow>
               matchChunk_from chunk3 s1' ((failed' \<or> s' = []) \<or> match = negated))"
        using ne bracket
        by (subst step)
           (auto simp: Let_def negated_def chunk2_def r'_def s1'_def split: sum.splits prod.splits)
      show ?thesis
      proof (cases "classRanges chunk2 r False 0")
        case (Inl err)
        then have "classRanges chunk2 r' False 0 = Inl err" by (rule classRanges_Inl_indep)
        with Inl less.prems u u' show ?thesis by simp
      next
        case (Inr x)
        obtain match chunk3 where x: "x = (match, chunk3)" by (cases x)
        note c = Inr [unfolded x]
        from c obtain match' where c': "classRanges chunk2 r' False 0 = Inr (match', chunk3)"
          using classRanges_Inr_indep by blast
        have "length chunk3 \<le> length chunk2" using c by (rule classRanges_shorter)
        with l2 have l3: "length chunk3 < length chunk" by simp
        have "matchChunk_from chunk3 s1 ((failed \<or> s = []) \<or> match = negated) = Inl e"
          using less.prems u c by simp
        then have "matchChunk_from chunk3 s1' ((failed' \<or> s' = []) \<or> match' = negated) = Inl e"
          by (rule less.hyps [OF l3])
        with u' c' show ?thesis by simp
      qed
    next
      case any
      define t where "t = (if \<not> (failed \<or> s = []) then drop (snd (DecodeRuneInString s)) s else s)"
      define g where "g = (if \<not> (failed \<or> s = []) then hd s = Separator else True)"
      define t' where
        "t' = (if \<not> (failed' \<or> s' = []) then drop (snd (DecodeRuneInString s')) s' else s')"
      define g' where "g' = (if \<not> (failed' \<or> s' = []) then hd s' = Separator else True)"
      have u: "matchChunk_from chunk s failed = matchChunk_from (tl chunk) t g"
        using ne any by (subst step) (simp add: Let_def t_def g_def)
      have u': "matchChunk_from chunk s' failed' = matchChunk_from (tl chunk) t' g'"
        using ne any by (subst step) (simp add: Let_def t'_def g'_def)
      from less.prems u have "matchChunk_from (tl chunk) t g = Inl e" by simp
      then have "matchChunk_from (tl chunk) t' g' = Inl e"
        by (rule less.hyps [OF tl_less])
      with u' show ?thesis by simp
    next
      case esc
      show ?thesis
      proof (cases "tl chunk = []")
        case True
        have "matchChunk_from chunk s failed = Inl ErrBadPattern"
          using ne esc True by (subst step) (simp add: Let_def)
        moreover have "matchChunk_from chunk s' failed' = Inl ErrBadPattern"
          using ne esc True by (subst step) (simp add: Let_def)
        ultimately show ?thesis using less.prems by simp
      next
        case False
        then have l: "length (tl (tl chunk)) < length chunk"
          using tl_less by (metis length_tl less_imp_diff_less)
        define t where "t = (if \<not> (failed \<or> s = []) then tl s else s)"
        define g where "g = (if \<not> (failed \<or> s = []) then hd (tl chunk) \<noteq> hd s else True)"
        define t' where "t' = (if \<not> (failed' \<or> s' = []) then tl s' else s')"
        define g' where
          "g' = (if \<not> (failed' \<or> s' = []) then hd (tl chunk) \<noteq> hd s' else True)"
        have u: "matchChunk_from chunk s failed = matchChunk_from (tl (tl chunk)) t g"
          using ne esc False by (subst step) (simp add: Let_def t_def g_def)
        have u': "matchChunk_from chunk s' failed' = matchChunk_from (tl (tl chunk)) t' g'"
          using ne esc False by (subst step) (simp add: Let_def t'_def g'_def)
        from less.prems u have "matchChunk_from (tl (tl chunk)) t g = Inl e" by simp
        then have "matchChunk_from (tl (tl chunk)) t' g' = Inl e"
          by (rule less.hyps [OF l])
        with u' show ?thesis by simp
      qed
    next
      case lit
      define t where "t = (if \<not> (failed \<or> s = []) then tl s else s)"
      define g where "g = (if \<not> (failed \<or> s = []) then hd chunk \<noteq> hd s else True)"
      define t' where "t' = (if \<not> (failed' \<or> s' = []) then tl s' else s')"
      define g' where "g' = (if \<not> (failed' \<or> s' = []) then hd chunk \<noteq> hd s' else True)"
      have u: "matchChunk_from chunk s failed = matchChunk_from (tl chunk) t g"
        using ne lit by (subst step) (simp add: Let_def t_def g_def)
      have u': "matchChunk_from chunk s' failed' = matchChunk_from (tl chunk) t' g'"
        using ne lit by (subst step) (simp add: Let_def t'_def g'_def)
      from less.prems u have "matchChunk_from (tl chunk) t g = Inl e" by simp
      then have "matchChunk_from (tl chunk) t' g' = Inl e"
        by (rule less.hyps [OF tl_less])
      with u' show ?thesis by simp
    qed
  qed
qed

lemma matchChunk_error_indep:
  "matchChunk chunk s = Inl e \<Longrightarrow> matchChunk chunk s' = Inl e"
  unfolding matchChunk_def by (rule matchChunk_from_error_indep)

text \<open>A chunk that \<open>scanChunk\<close> returns empty is the end of the pattern.\<close>

lemma scanChunk_empty_chunk:
  assumes "scanChunk p = (star, [], rest)"
  shows "rest = []"
proof -
  let ?p1 = "dropWhile (\<lambda>c. c = CHR ''*'') p"
  have sp: "scanSplit False ?p1 = ([], rest)"
    using assms by (simp add: scanChunk_def Let_def split: prod.splits)
  show ?thesis
  proof (cases "?p1 = []")
    case True
    with sp show ?thesis by simp
  next
    case False
    then have "hd ?p1 \<noteq> CHR ''*''" using hd_dropWhile [of "\<lambda>c. c = CHR ''*''" p] by simp
    with False have "fst (scanSplit False ?p1) \<noteq> []" by (rule scanSplit_nonempty)
    with sp show ?thesis by simp
  qed
qed

lemma starLoop_error:
  "starLoop chunk lastChunk name = Inl e \<Longrightarrow> \<exists>s. matchChunk chunk s = Inl e"
  by (induction name) (auto split: if_splits sum.splits prod.splits)

text \<open>\<open>Match\<close> returns the error exactly when the syntax check of the whole pattern
  finds one: the name plays no part.\<close>

lemma Match_error_iff: "(Match p n = Inl e) = (checkRest p = Some e)"
proof (induction "length p" arbitrary: p n rule: less_induct)
  case less
  show ?case
  proof (cases "p = []")
    case True
    then show ?thesis
      by (simp add: Match.simps [of "[]"] checkRest.simps [of "[]"])
  next
    case ne: False
    obtain star chunk rest where sc: "scanChunk p = (star, chunk, rest)"
      by (cases "scanChunk p") auto
    have "length rest < length p" using ne sc by (rule scanChunk_shorter)
    then have IH: "(Match rest t = Inl e) = (checkRest rest = Some e)" for t
      by (rule less.hyps)
    have cr: "checkRest p =
        (case matchChunk chunk [] of Inl err \<Rightarrow> Some err | Inr res \<Rightarrow> checkRest rest)"
      using ne sc by (subst checkRest.simps) simp
    show ?thesis
    proof (cases "star \<and> chunk = []")
      case True
      with sc have "rest = []" using scanChunk_empty_chunk by blast
      moreover have "Match p n = Inr (Separator \<notin> set n)"
        using ne sc True by (subst Match.simps) simp
      moreover have "matchChunk [] [] = Inr ([], True)"
        by (simp add: matchChunk_def matchChunk_from.simps [of "[]"])
      ultimately show ?thesis using cr True by (simp add: checkRest.simps [of "[]"])
    next
      case nostar: False
      show ?thesis
      proof (cases "matchChunk chunk n")
        case (Inl e')
        then have "matchChunk chunk [] = Inl e'" by (rule matchChunk_error_indep)
        with cr have "checkRest p = Some e'" by simp
        moreover have "Match p n = Inl e'"
          using ne sc nostar Inl by (subst Match.simps) auto
        ultimately show ?thesis by auto
      next
        case (Inr x)
        obtain t ok where x: "x = (t, ok)" by (cases x)
        note mc = Inr [unfolded x]
        have "\<exists>res. matchChunk chunk [] = Inr res"
        proof (cases "matchChunk chunk []")
          case (Inl e')
          then have "matchChunk chunk n = Inl e'" by (rule matchChunk_error_indep)
          with mc show ?thesis by simp
        next
          case (Inr res)
          then show ?thesis by blast
        qed
        with cr have cr': "checkRest p = checkRest rest" by auto
        show ?thesis
        proof (cases "ok \<and> (t = [] \<or> rest \<noteq> [])")
          case True
          have "Match p n = Match rest t"
            using ne sc nostar mc True by (subst Match.simps) auto
          with IH cr' show ?thesis by simp
        next
          case notok: False
          define loop where
            "loop = (if star then starLoop chunk (rest = []) n else Inr None)"
          have m: "Match p n =
              (case loop of
                 Inl err \<Rightarrow> Inl err
               | Inr (Some t1) \<Rightarrow> Match rest t1
               | Inr None \<Rightarrow>
                   (case checkRest rest of Some err \<Rightarrow> Inl err | None \<Rightarrow> Inr False))"
            using ne sc nostar mc notok unfolding loop_def by (subst Match.simps) auto
          show ?thesis
          proof (cases loop)
            case (Inl e')
            then have "starLoop chunk (rest = []) n = Inl e'"
              by (simp add: loop_def split: if_splits)
            then obtain s where "matchChunk chunk s = Inl e'"
              using starLoop_error by blast
            then have "matchChunk chunk n = Inl e'" by (rule matchChunk_error_indep)
            with mc show ?thesis by simp
          next
            case (Inr found)
            show ?thesis
            proof (cases found)
              case None
              with Inr m cr' show ?thesis by (simp split: option.splits)
            next
              case (Some t1)
              with Inr m have "Match p n = Match rest t1" by simp
              with IH cr' show ?thesis by simp
            qed
          qed
        qed
      qed
    qed
  qed
qed

lemma Match_error_any_name: "Match p n = Inl e \<Longrightarrow> Match p n' = Inl e"
  by (simp add: Match_error_iff)

lemma matchfilters_loop_skip:
  "fst (filter_match f fileName level) = False \<Longrightarrow>
   matchfilters_loop (before @ f # after) fileName level
     = matchfilters_loop (before @ after) fileName level"
  by (induction before) (auto split: prod.splits)

text \<open>
  \<^bold>\<open>C10.\<close> A filter whose pattern \<open>filepath.Match\<close> reports as malformed (for some
  name, hence for every name) makes \<open>match\<close> return \<open>(false, false)\<close> for every file
  name and every level: the error is dropped, and \<open>matchfilters\<close> decides as if the
  filter were not in the sequence. The pattern \<open>[\<close> is malformed.
\<close>

theorem filter_match_malformed_pattern:
  assumes "Match (Pattern f) name0 = Inl err"
  shows "filter_match f fileName level = (False, False)
       \<and> matchfilters \<lparr>filters = before @ f # after\<rparr> fileName level
           = matchfilters \<lparr>filters = before @ after\<rparr> fileName level
       \<and> Match ''['' name = Inl ErrBadPattern"
proof -
  from assms have e: "Match (Pattern f) (Base fileName) = Inl err"
    by (rule Match_error_any_name)
  then have "Pattern f \<noteq> []"
    by (auto simp: Match.simps [of "[]"])
  with e have fm: "filter_match f fileName level = (False, False)"
    by (simp add: filter_match_def)
  then have "matchfilters_loop (before @ f # after) fileName level
             = matchfilters_loop (before @ after) fileName level"
    by (simp add: matchfilters_loop_skip)
  moreover have "matchfilters_loop [] fileName level = False" by simp
  ultimately have mf: "matchfilters \<lparr>filters = before @ f # after\<rparr> fileName level
           = matchfilters \<lparr>filters = before @ after\<rparr> fileName level"
    by (cases "before @ after = []") (auto simp: matchfilters_def)
  have "checkRest ''['' = Some ErrBadPattern" by code_simp
  then have "Match ''['' name = Inl ErrBadPattern" by (simp add: Match_error_iff)
  with fm mf show ?thesis by simp
qed

theorem filter_match_malformed_pattern_witness:
  "Match ''['' ''x'' = Inl ErrBadPattern
   \<and> filter_match \<lparr>Pattern = ''['', Level = levelDebug\<rparr> ''rlog/a.go'' levelCrit = (False, False)
   \<and> matchfilters \<lparr>filters = [\<lparr>Pattern = ''['', Level = levelDebug\<rparr>,
                               \<lparr>Pattern = [], Level = levelInfo\<rparr>]\<rparr> ''rlog/a.go'' levelCrit
       = matchfilters \<lparr>filters = [\<lparr>Pattern = [], Level = levelInfo\<rparr>]\<rparr> ''rlog/a.go'' levelCrit"
proof -
  have m: "Match (Pattern \<lparr>Pattern = ''['', Level = levelDebug\<rparr>) ''x'' = Inl ErrBadPattern"
    by code_simp
  note t = filter_match_malformed_pattern [OF m, where fileName = "''rlog/a.go''"
      and level = levelCrit and before = "[]" and after = "[\<lparr>Pattern = [], Level = levelInfo\<rparr>]"]
  show ?thesis using t m by simp
qed

section \<open>Properties of the filter specification's construction\<close>

text \<open>What a specification string says, read off its fields in order: the rules of its
  valid fields, the patterned ones among them, and the global level they leave (the
  last pattern-less one, or the default).\<close>

definition validRules :: "bool \<Rightarrow> string \<Rightarrow> (string \<times> int) list" where
  "validRules isTraceLevels s =
     List.map_filter (fromString_token isTraceLevels) (Split s (CHR '',''))"

definition patternedRules :: "(string \<times> int) list \<Rightarrow> rlog_filter list" where
  "patternedRules rules =
     map (\<lambda>rule. \<lparr>Pattern = fst rule, Level = snd rule\<rparr>)
       (filter (\<lambda>rule. fst rule \<noteq> []) rules)"

definition resolvedGlobalLevel :: "int \<Rightarrow> (string \<times> int) list \<Rightarrow> int" where
  "resolvedGlobalLevel globalLevelDefault rules =
     last (globalLevelDefault # map snd (filter (\<lambda>rule. fst rule = []) rules))"

lemma fromString_loop_rules:
  "fromString_loop isTraceLevels fieldList (globalLevel, fs) =
     (resolvedGlobalLevel globalLevel (List.map_filter (fromString_token isTraceLevels) fieldList),
      fs @ patternedRules (List.map_filter (fromString_token isTraceLevels) fieldList))"
proof (induction fieldList arbitrary: globalLevel fs)
  case Nil
  show ?case by (simp add: resolvedGlobalLevel_def patternedRules_def map_filter_simps)
next
  case (Cons f fieldList)
  show ?case
  proof (cases "fromString_token isTraceLevels f")
    case None
    then show ?thesis
      by (simp add: fromString_step_def Cons.IH map_filter_simps)
  next
    case (Some rule)
    obtain matchToken filterLevel where r: "rule = (matchToken, filterLevel)" by (cases rule)
    show ?thesis
      using Some r
      by (simp add: fromString_step_def Cons.IH map_filter_simps
            resolvedGlobalLevel_def patternedRules_def)
  qed
qed

lemma fromString_filters:
  "filters (fromString spec s isTraceLevels globalLevelDefault) =
     filters spec @ patternedRules (validRules isTraceLevels s)
       @ (if \<not> isTraceLevels
             \<or> resolvedGlobalLevel globalLevelDefault (validRules isTraceLevels s) \<noteq> noTraceOutput
          then [\<lparr>Pattern = [],
                 Level = resolvedGlobalLevel globalLevelDefault (validRules isTraceLevels s)\<rparr>]
          else [])"
  by (simp add: fromString_def fromString_loop_rules validRules_def)




text \<open>
  \<^bold>\<open>C4.\<close> On the trace axis, when the resolved global level is the sentinel \<open>-1\<close>
  and the string has no valid patterned field, \<open>fromString\<close> leaves a fresh
  \<open>filterSpec\<close> without filters; \<open>matchfilters\<close> then rejects every query, and
  \<open>Trace\<close> does not even call \<open>basicLog\<close>.
\<close>

theorem fromString_trace_disabled_empty:
  assumes "resolvedGlobalLevel globalLevelDefault (validRules True s) = noTraceOutput"
    and "patternedRules (validRules True s) = []"
  shows "filters (fromString new_filterSpec s True globalLevelDefault) = []
       \<and> matchfilters (fromString new_filterSpec s True globalLevelDefault) fileName level = False
       \<and> Trace_allowLog logFilterSpec (fromString new_filterSpec s True globalLevelDefault)
            ok fullFilePath level = False"
proof -
  have e: "filters (fromString new_filterSpec s True globalLevelDefault) = []"
    using assms by (simp add: fromString_filters new_filterSpec_def)
  then show ?thesis by (simp add: matchfilters_def Trace_allowLog_def)
qed

theorem fromString_trace_disabled_empty_witness:
  "resolvedGlobalLevel noTraceOutput (validRules True []) = noTraceOutput
   \<and> patternedRules (validRules True []) = []
   \<and> filters (fromString new_filterSpec [] True noTraceOutput) = []
   \<and> matchfilters (fromString new_filterSpec [] True noTraceOutput) ''rlog/a.go'' 0 = False
   \<and> Trace_allowLog (fromString new_filterSpec [] False levelInfo)
        (fromString new_filterSpec [] True noTraceOutput) True ''/src/rlog/a.go'' 0 = False"
proof -
  have v: "validRules True [] = []" by code_simp
  have h1: "resolvedGlobalLevel noTraceOutput (validRules True []) = noTraceOutput"
    by (simp add: v resolvedGlobalLevel_def)
  have h2: "patternedRules (validRules True []) = []"
    by (simp add: v patternedRules_def)
  show ?thesis
    using h1 h2
      fromString_trace_disabled_empty [OF h1 h2, where fileName = "''rlog/a.go''" and level = 0
        and logFilterSpec = "fromString new_filterSpec [] False levelInfo" and ok = True
        and fullFilePath = "''/src/rlog/a.go''"]
    by simp
qed

section \<open>Fields that the construction skips\<close>











section \<open>Properties of the boolean recognizer\<close>





end
